theory Spec2Isabelle
  imports Main
begin

section \<open>The script's values and state\<close>

text \<open>
  The game is \<^verbatim>\<open>src/script.js\<close>: five module-level variables, one constant table and
  six DOM references, changed by two event handlers. The variables and the DOM properties
  the script writes are the fields of one record; a handler takes the state and returns the
  new one.

  \<^item> \<^verbatim>\<open>currentPlayer\<close> and the entries of \<^verbatim>\<open>gameState\<close> are JavaScript strings and stay
    strings here (\<open>''''\<close> is the empty cell).
  \<^item> The two scores are JavaScript numbers that start at 0 and are only ever incremented;
    they are natural numbers here. (A double holds every integer up to \<open>2^53\<close> exactly, so the
    model is exact for any tally a session can reach.)
  \<^item> \<open>statusDisplay\<close> is the \<^verbatim>\<open>textContent\<close> of \<^verbatim>\<open>#status-display\<close>, \<open>gameBoard\<close> the class list
    of \<^verbatim>\<open>#game-board\<close>, \<open>cells\<close> the node list \<^verbatim>\<open>querySelectorAll("[data-cell-index]")\<close> with
    the text and class list of each element. The two score displays hold the number whose
    decimal rendering is their \<^verbatim>\<open>textContent\<close>.
\<close>

datatype js_number = NaN | Num int

datatype js_error = TypeError | SyntaxError | InvalidCharacterError

record element =
  textContent :: string
  classList :: "string list"

record state =
  gameActive :: bool
  currentPlayer :: string
  gameState :: "string list"
  playerXScore :: nat
  playerOScore :: nat
  statusDisplay :: string
  gameBoard :: "string list"
  cells :: "element list"
  playerXScoreDisplay :: nat
  playerOScoreDisplay :: nat

text \<open>
  A handler either returns or throws. An uncaught exception ends the handler that threw it
  and nothing else: the assignments made before it stay, and the next event is handled on
  that state. So a thrown outcome carries the state too.
\<close>

datatype outcome = Returned state | Threw js_error state

fun state_of :: "outcome \<Rightarrow> state" where
  "state_of (Returned s) = s"
| "state_of (Threw err s) = s"

fun returns :: "outcome \<Rightarrow> bool" where
  "returns (Returned s) = True"
| "returns (Threw err s) = False"

fun andThen :: "outcome \<Rightarrow> (state \<Rightarrow> outcome) \<Rightarrow> outcome" where
  "andThen (Returned s) f = f s"
| "andThen (Threw err s) f = Threw err s"

subsection \<open>Array reads and writes\<close>

text \<open>
  \<^verbatim>\<open>xs[i]\<close> outside the array is \<^verbatim>\<open>undefined\<close>, here \<open>None\<close>; \<^verbatim>\<open>===\<close> on what was read is
  equality of options. \<open>array_get\<close> reads at the number \<^verbatim>\<open>parseInt\<close> produced (an integer or
  \<^verbatim>\<open>NaN\<close>), \<open>array_at\<close> at a literal index.
\<close>

definition array_at :: "'a list \<Rightarrow> nat \<Rightarrow> 'a option" where
  "array_at xs n = (if n < length xs then Some (xs ! n) else None)"

fun array_get :: "'a list \<Rightarrow> js_number \<Rightarrow> 'a option" where
  "array_get xs NaN = None"
| "array_get xs (Num i) = (if 0 \<le> i then array_at xs (nat i) else None)"

text \<open>
  \<^verbatim>\<open>xs[i] = v\<close>. Inside the array it replaces the element. Outside it JavaScript would add a
  property to the array object; \<open>handleCellClick\<close> calls \<open>handleCellPlayed\<close> only where
  \<^verbatim>\<open>gameState[clickedCellIndex] === ""\<close>, which no index outside the array satisfies
  (lemma \<open>array_get_in_range\<close>), so that write never happens and the model leaves the list
  as it is there.
\<close>

fun array_put :: "'a list \<Rightarrow> js_number \<Rightarrow> 'a \<Rightarrow> 'a list" where
  "array_put xs NaN v = xs"
| "array_put xs (Num i) v = (if 0 \<le> i \<and> i < int (length xs) then xs[nat i := v] else xs)"

subsection \<open>Class lists and strings\<close>

text \<open>
  A \<^verbatim>\<open>DOMTokenList\<close> is an ordered set of tokens. \<^verbatim>\<open>add\<close> throws \<^verbatim>\<open>SyntaxError\<close> on the empty
  token and \<^verbatim>\<open>InvalidCharacterError\<close> on a token with ASCII whitespace; the literal tokens of
  the script are neither.
\<close>

definition classList_remove :: "string list \<Rightarrow> string list \<Rightarrow> string list" where
  "classList_remove tokens cl = filter (\<lambda>t. t \<notin> set tokens) cl"

definition classList_add :: "string \<Rightarrow> string list \<Rightarrow> string list" where
  "classList_add token cl = (if token \<in> set cl then cl else cl @ [token])"

definition classList_toggle :: "string \<Rightarrow> string list \<Rightarrow> string list" where
  "classList_toggle token cl =
     (if token \<in> set cl then classList_remove [token] cl else classList_add token cl)"

definition ascii_whitespace :: "char list" where
  "ascii_whitespace = [CHR 0x09, CHR 0x0A, CHR 0x0C, CHR 0x0D, CHR 0x20]"

definition token_error :: "string \<Rightarrow> js_error option" where
  "token_error token =
     (if token = [] then Some SyntaxError
      else if list_ex (\<lambda>c. c \<in> set ascii_whitespace) token then Some InvalidCharacterError
      else None)"

text \<open>\<^verbatim>\<open>toLowerCase\<close>, on the ASCII letters (the script applies it to \<^verbatim>\<open>"X"\<close> and \<^verbatim>\<open>"O"\<close>).\<close>

definition toLowerCase :: "string \<Rightarrow> string" where
  "toLowerCase str =
     map (\<lambda>c. if 65 \<le> (of_char c :: nat) \<and> (of_char c :: nat) \<le> 90
              then char_of ((of_char c :: nat) + 32) else c) str"

section \<open>Constants and message templates\<close>

definition winningConditions :: "(nat \<times> nat \<times> nat) list" where
  "winningConditions =
     [(0, 1, 2), (3, 4, 5), (6, 7, 8),
      (0, 3, 6), (1, 4, 7), (2, 5, 8),
      (0, 4, 8), (2, 4, 6)]"

definition winMessage :: "state \<Rightarrow> string" where
  "winMessage s = ''Player '' @ currentPlayer s @ '' has won!''"

definition drawMessage :: "string" where
  "drawMessage = ''Game ended in a draw!''"

definition currentPlayerTurn :: "state \<Rightarrow> string" where
  "currentPlayerTurn s = ''It'' @ [CHR 0x27] @ ''s '' @ currentPlayer s @ [CHR 0x27] @ ''s turn''"

section \<open>Core game functions\<close>

definition handleRestartGame :: "state \<Rightarrow> state" where
  "handleRestartGame s0 =
     (let s = s0\<lparr>gameActive := True\<rparr>;
          s = s\<lparr>currentPlayer := ''X''\<rparr>;
          s = s\<lparr>gameState := ['''', '''', '''', '''', '''', '''', '''', '''', '''']\<rparr>;
          s = s\<lparr>statusDisplay := currentPlayerTurn s\<rparr>;
          s = s\<lparr>cells :=
                  map (\<lambda>cell. cell\<lparr>textContent := '''',
                                    classList := classList_remove [''x'', ''o'', ''winning-cell'']
                                                   (classList cell)\<rparr>)
                      (cells s)\<rparr>;
          s = s\<lparr>gameBoard := classList_remove [''turn-o''] (gameBoard s)\<rparr>;
          s = s\<lparr>gameBoard := classList_add ''turn-x'' (gameBoard s)\<rparr>
      in s)"

text \<open>
  \<open>clickedCell\<close> is the clicked element, given by its position in \<open>cells\<close> (the listeners are
  attached to exactly those elements). \<open>clickedCellIndex\<close> is what \<^verbatim>\<open>parseInt\<close> made of its
  \<^verbatim>\<open>data-cell-index\<close> attribute; the page that sets the attribute is not part of the
  sources, so the number is a parameter.
\<close>

definition handleCellPlayed :: "nat \<Rightarrow> js_number \<Rightarrow> state \<Rightarrow> outcome" where
  "handleCellPlayed clickedCell clickedCellIndex s0 =
     (let s = s0\<lparr>gameState := array_put (gameState s0) clickedCellIndex (currentPlayer s0)\<rparr>;
          s = s\<lparr>cells := (cells s)[clickedCell :=
                            (cells s ! clickedCell)\<lparr>textContent := currentPlayer s\<rparr>]\<rparr>
      in case token_error (toLowerCase (currentPlayer s)) of
           Some err \<Rightarrow> Threw err s
         | None \<Rightarrow>
             Returned (s\<lparr>cells := (cells s)[clickedCell :=
                           (cells s ! clickedCell)\<lparr>classList :=
                              classList_add (toLowerCase (currentPlayer s))
                                (classList (cells s ! clickedCell))\<rparr>]\<rparr>))"

definition handlePlayerChange :: "state \<Rightarrow> state" where
  "handlePlayerChange s0 =
     (let s = s0\<lparr>currentPlayer := (if currentPlayer s0 = ''X'' then ''O'' else ''X'')\<rparr>;
          s = s\<lparr>statusDisplay := currentPlayerTurn s\<rparr>;
          s = s\<lparr>gameBoard := classList_toggle ''turn-x'' (gameBoard s)\<rparr>;
          s = s\<lparr>gameBoard := classList_toggle ''turn-o'' (gameBoard s)\<rparr>
      in s)"

definition updateScore :: "state \<Rightarrow> state" where
  "updateScore s0 =
     (if currentPlayer s0 = ''X''
      then (let s = s0\<lparr>playerXScore := playerXScore s0 + 1\<rparr>
            in s\<lparr>playerXScoreDisplay := playerXScore s\<rparr>)
      else (let s = s0\<lparr>playerOScore := playerOScore s0 + 1\<rparr>
            in s\<lparr>playerOScoreDisplay := playerOScore s\<rparr>))"

text \<open>\<^verbatim>\<open>cells[index]\<close> past the node list is \<^verbatim>\<open>undefined\<close>, and reading its \<^verbatim>\<open>classList\<close> throws.\<close>

fun highlightWinningCells :: "nat list \<Rightarrow> state \<Rightarrow> outcome" where
  "highlightWinningCells [] s = Returned s"
| "highlightWinningCells (index # rest) s =
     (if index < length (cells s)
      then highlightWinningCells rest
             (s\<lparr>cells := (cells s)[index :=
                   (cells s ! index)\<lparr>classList :=
                      classList_add ''winning-cell'' (classList (cells s ! index))\<rparr>]\<rparr>)
      else Threw TypeError s)"

text \<open>
  The loop of \<open>handleResultValidation\<close> over the table, from the entry it has reached: the
  result is the pair \<^verbatim>\<open>(roundWon, winningLine)\<close> the loop leaves behind.
\<close>

fun checkConditions :: "string list \<Rightarrow> (nat \<times> nat \<times> nat) list \<Rightarrow> bool \<times> nat list" where
  "checkConditions gs [] = (False, [])"
| "checkConditions gs ((a, b, c) # rest) =
     (let posA = array_at gs a;
          posB = array_at gs b;
          posC = array_at gs c
      in if posA = Some '''' \<or> posB = Some '''' \<or> posC = Some '''' then checkConditions gs rest
         else if posA = posB \<and> posB = posC then (True, [a, b, c])
         else checkConditions gs rest)"

definition handleResultValidation :: "state \<Rightarrow> outcome" where
  "handleResultValidation s0 =
     (let (roundWon, winningLine) = checkConditions (gameState s0) winningConditions
      in if roundWon
         then (let s = s0\<lparr>statusDisplay := winMessage s0\<rparr>;
                   s = s\<lparr>gameActive := False\<rparr>;
                   s = updateScore s
               in andThen (highlightWinningCells winningLine s)
                    (\<lambda>s. Returned (s\<lparr>gameBoard :=
                            classList_remove [''turn-x'', ''turn-o''] (gameBoard s)\<rparr>)))
         else (let roundDraw = ('''' \<notin> set (gameState s0))
               in if roundDraw
                  then (let s = s0\<lparr>statusDisplay := drawMessage\<rparr>;
                            s = s\<lparr>gameActive := False\<rparr>;
                            s = s\<lparr>gameBoard :=
                                   classList_remove [''turn-x'', ''turn-o''] (gameBoard s)\<rparr>
                        in Returned s)
                  else Returned (handlePlayerChange s0)))"

definition handleCellClick :: "nat \<Rightarrow> js_number \<Rightarrow> state \<Rightarrow> outcome" where
  "handleCellClick clickedCell clickedCellIndex s =
     (if array_get (gameState s) clickedCellIndex \<noteq> Some '''' \<or> \<not> gameActive s
      then Returned s
      else andThen (handleCellPlayed clickedCell clickedCellIndex s) handleResultValidation)"

section \<open>Events\<close>

text \<open>
  The listeners of the script: a click on a cell runs \<open>handleCellClick\<close>, a click on the
  restart button runs \<open>handleRestartGame\<close>. \<open>run\<close> handles a list of events in order.
\<close>

datatype event = CellClick nat js_number | RestartClick

fun dispatch :: "event \<Rightarrow> state \<Rightarrow> outcome" where
  "dispatch (CellClick clickedCell clickedCellIndex) s = handleCellClick clickedCell clickedCellIndex s"
| "dispatch RestartClick s = Returned (handleRestartGame s)"

fun run :: "event list \<Rightarrow> state \<Rightarrow> state" where
  "run [] s = s"
| "run (e # es) s = run es (state_of (dispatch e s))"

text \<open>
  Loading the page runs the declarations of the script (the game is active, X is to move,
  the board is nine empty strings, both scores are 0) and then \<open>handleRestartGame\<close>. The
  argument holds the DOM as the page was loaded.
\<close>

definition startup :: "state \<Rightarrow> state" where
  "startup page =
     handleRestartGame
       (page\<lparr>gameActive := True, currentPlayer := ''X'',
              gameState := ['''', '''', '''', '''', '''', '''', '''', '''', ''''],
              playerXScore := 0, playerOScore := 0\<rparr>)"

text \<open>A page with nine cells and nothing shown yet, for concrete runs.\<close>

definition blank_page :: state where
  "blank_page =
     \<lparr>gameActive = True, currentPlayer = ''X'',
      gameState = ['''', '''', '''', '''', '''', '''', '''', '''', ''''],
      playerXScore = 0, playerOScore = 0, statusDisplay = '''', gameBoard = [],
      cells = replicate 9 \<lparr>textContent = '''', classList = []\<rparr>,
      playerXScoreDisplay = 0, playerOScoreDisplay = 0\<rparr>"

text \<open>A click on the \<open>i\<close>-th cell of a page whose \<open>i\<close>-th cell carries the index \<open>i\<close>.\<close>

definition clicks :: "nat list \<Rightarrow> event list" where
  "clicks is = map (\<lambda>i. CellClick i (Num (int i))) is"

section \<open>Observations on the state\<close>

text \<open>
  What the loop of \<open>handleResultValidation\<close> finds on the board of a state, the opposite
  mark as \<open>handlePlayerChange\<close> computes it, and the counter \<open>updateScore\<close> picks for a mark.
\<close>

definition roundWon :: "state \<Rightarrow> bool" where
  "roundWon s = fst (checkConditions (gameState s) winningConditions)"

definition winningLine :: "state \<Rightarrow> nat list" where
  "winningLine s = snd (checkConditions (gameState s) winningConditions)"

definition otherPlayer :: "string \<Rightarrow> string" where
  "otherPlayer m = (if m = ''X'' then ''O'' else ''X'')"

definition score :: "string \<Rightarrow> state \<Rightarrow> nat" where
  "score m s = (if m = ''X'' then playerXScore s else playerOScore s)"

text \<open>
  The game status of the specification is not a variable of the script. It is what the
  state shows: the game is in progress while \<open>gameActive\<close> holds; it is won by \<open>m\<close> on a
  line when the game is inactive, the status text announces \<open>m\<close> and exactly the cells of
  the line carry the class \<^verbatim>\<open>winning-cell\<close>; it is drawn when the game is inactive and the
  status text is the draw message. Every line of the table is in ascending order, so the
  highlighted cells, listed in ascending order, are compared with the line as lists.
\<close>

datatype status = InProgress | Won string "nat list" | Draw

definition is_highlighted :: "state \<Rightarrow> nat \<Rightarrow> bool" where
  "is_highlighted s k = (''winning-cell'' \<in> set (classList (cells s ! k)))"

definition highlighted :: "state \<Rightarrow> nat list" where
  "highlighted s = filter (is_highlighted s) [0..<length (cells s)]"

fun displays :: "state \<Rightarrow> status \<Rightarrow> bool" where
  "displays s InProgress = gameActive s"
| "displays s (Won m line) =
     (\<not> gameActive s \<and> statusDisplay s = ''Player '' @ m @ '' has won!'' \<and> highlighted s = line)"
| "displays s Draw = (\<not> gameActive s \<and> statusDisplay s = ''Game ended in a draw!'')"

text \<open>
  A click is accepted when the guard of \<open>handleCellClick\<close> lets it through. \<open>all_accepted\<close>
  says that every event of a list is an accepted click on the state the events before it
  have produced.
\<close>

fun accepted :: "event \<Rightarrow> state \<Rightarrow> bool" where
  "accepted (CellClick clickedCell clickedCellIndex) s =
     (array_get (gameState s) clickedCellIndex = Some '''' \<and> gameActive s)"
| "accepted RestartClick s = False"

fun all_accepted :: "event list \<Rightarrow> state \<Rightarrow> bool" where
  "all_accepted [] s = True"
| "all_accepted (e # es) s = (accepted e s \<and> all_accepted es (state_of (dispatch e s)))"

fun is_click :: "event \<Rightarrow> bool" where
  "is_click (CellClick clickedCell clickedCellIndex) = True"
| "is_click RestartClick = False"

text \<open>
  The marks the accepted clicks of a list of events put on the board, in order: each is
  read back from \<open>gameState\<close>, at the index clicked, once the click has been handled.
\<close>

fun marks_placed :: "event list \<Rightarrow> state \<Rightarrow> string option list" where
  "marks_placed [] s = []"
| "marks_placed (CellClick clickedCell clickedCellIndex # es) s =
     (let s' = state_of (handleCellClick clickedCell clickedCellIndex s)
      in (if accepted (CellClick clickedCell clickedCellIndex) s
          then [array_get (gameState s') clickedCellIndex] else [])
         @ marks_placed es s')"
| "marks_placed (RestartClick # es) s = marks_placed es (handleRestartGame s)"

section \<open>The specification's evaluation of a board\<close>

text \<open>
  A line is full on a board when its three cells are non-empty and equal. The
  specification lists the lines as the three rows from top to bottom, the three columns
  from left to right and the two diagonals, and evaluates a board to the first full line
  in that order, to a draw when there is none and no cell is empty, and to a game in
  progress otherwise. It does not say which diagonal comes first; here it is the one from
  the top left corner.
\<close>

definition full_line :: "string list \<Rightarrow> nat \<times> nat \<times> nat \<Rightarrow> bool" where
  "full_line board t =
     (case t of (a, b, c) \<Rightarrow>
        board ! a \<noteq> '''' \<and> board ! b \<noteq> '''' \<and> board ! c \<noteq> '''' \<and>
        board ! a = board ! b \<and> board ! b = board ! c)"

definition spec_triples :: "(nat \<times> nat \<times> nat) list" where
  "spec_triples =
     map (\<lambda>r. (3 * r, 3 * r + 1, 3 * r + 2)) [0, 1, 2]
     @ map (\<lambda>c. (c, c + 3, c + 6)) [0, 1, 2]
     @ [(0, 4, 8), (2, 4, 6)]"

definition has_line :: "string list \<Rightarrow> bool" where
  "has_line board = list_ex (full_line board) spec_triples"

definition spec_evaluate :: "string list \<Rightarrow> status" where
  "spec_evaluate board =
     (case find (full_line board) spec_triples of
        Some (a, b, c) \<Rightarrow> Won (board ! a) [a, b, c]
      | None \<Rightarrow> if '''' \<notin> set board then Draw else InProgress)"

fun no_line_during :: "event list \<Rightarrow> state \<Rightarrow> bool" where
  "no_line_during [] s = True"
| "no_line_during (e # es) s =
     (\<not> has_line (gameState (state_of (dispatch e s)))
      \<and> no_line_during es (state_of (dispatch e s)))"

text \<open>
  The player \<open>m\<close> completes the line \<open>t\<close> by a move at \<open>idx\<close>: it is the turn of \<open>m\<close>, the
  cell is empty, no line is full yet (nobody has completed one before), and with the mark
  of \<open>m\<close> in that cell the line \<open>t\<close> is full.
\<close>

definition completes :: "state \<Rightarrow> js_number \<Rightarrow> string \<Rightarrow> nat \<times> nat \<times> nat \<Rightarrow> bool" where
  "completes s idx m t =
     (currentPlayer s = m \<and> array_get (gameState s) idx = Some '''' \<and> \<not> has_line (gameState s)
      \<and> t \<in> set spec_triples \<and> full_line (array_put (gameState s) idx m) t)"

definition line_cells :: "nat \<times> nat \<times> nat \<Rightarrow> nat list" where
  "line_cells t = (case t of (a, b, c) \<Rightarrow> [a, b, c])"

section \<open>Invariants of the states the script reaches\<close>

definition game_inv :: "state \<Rightarrow> bool" where
  "game_inv s =
     (length (gameState s) = 9
      \<and> set (gameState s) \<subseteq> {'''', ''X'', ''O''}
      \<and> (currentPlayer s = ''X'' \<or> currentPlayer s = ''O'')
      \<and> (if gameActive s
         then \<not> has_line (gameState s) \<and> '''' \<in> set (gameState s)
              \<and> count_list (gameState s) ''X''
                  = count_list (gameState s) ''O'' + (if currentPlayer s = ''X'' then 0 else 1)
         else (has_line (gameState s) \<or> '''' \<notin> set (gameState s))
              \<and> (count_list (gameState s) ''X'' = count_list (gameState s) ''O''
                   \<or> count_list (gameState s) ''X'' = count_list (gameState s) ''O'' + 1)))"

definition page_inv :: "state \<Rightarrow> bool" where
  "page_inv s = (length (cells s) = 9 \<and> (gameActive s \<longrightarrow> highlighted s = []))"

section \<open>Properties of the handlers\<close>

subsection \<open>The handlers, field by field\<close>

lemma toLowerCase_X: "toLowerCase ''X'' = ''x''" by code_simp
lemma toLowerCase_O: "toLowerCase ''O'' = ''o''" by code_simp
lemma token_error_x: "token_error ''x'' = None" by code_simp
lemma token_error_o: "token_error ''o'' = None" by code_simp

lemma array_get_in_range:
  "array_get xs idx = Some v \<Longrightarrow> \<exists>i. idx = Num i \<and> 0 \<le> i \<and> i < int (length xs) \<and> xs ! nat i = v"
  by (cases idx) (auto simp: array_at_def split: if_splits)

lemma handleCellPlayed_fields:
  "gameActive (state_of (handleCellPlayed k idx s)) = gameActive s"
  "currentPlayer (state_of (handleCellPlayed k idx s)) = currentPlayer s"
  "gameState (state_of (handleCellPlayed k idx s)) = array_put (gameState s) idx (currentPlayer s)"
  "playerXScore (state_of (handleCellPlayed k idx s)) = playerXScore s"
  "playerOScore (state_of (handleCellPlayed k idx s)) = playerOScore s"
  "statusDisplay (state_of (handleCellPlayed k idx s)) = statusDisplay s"
  "length (cells (state_of (handleCellPlayed k idx s))) = length (cells s)"
  by (simp_all add: handleCellPlayed_def Let_def split: option.splits)

lemma handleCellPlayed_returns:
  "returns (handleCellPlayed k idx s) = (token_error (toLowerCase (currentPlayer s)) = None)"
  by (simp add: handleCellPlayed_def Let_def split: option.splits)

lemma highlight_fields:
  "gameActive (state_of (highlightWinningCells ws s)) = gameActive s"
  "currentPlayer (state_of (highlightWinningCells ws s)) = currentPlayer s"
  "gameState (state_of (highlightWinningCells ws s)) = gameState s"
  "playerXScore (state_of (highlightWinningCells ws s)) = playerXScore s"
  "playerOScore (state_of (highlightWinningCells ws s)) = playerOScore s"
  "statusDisplay (state_of (highlightWinningCells ws s)) = statusDisplay s"
  "length (cells (state_of (highlightWinningCells ws s))) = length (cells s)"
  by (induction ws s rule: highlightWinningCells.induct; simp)+

lemma state_of_andThen_Returned:
  "state_of (andThen r (\<lambda>s. Returned (f s))) = (case r of Returned s \<Rightarrow> f s | Threw e s \<Rightarrow> s)"
  by (cases r) simp_all

lemma hRV_fields:
  "gameState (state_of (handleResultValidation s)) = gameState s"
  "gameActive (state_of (handleResultValidation s)) = (gameActive s \<and> \<not> roundWon s \<and> '''' \<in> set (gameState s))"
  "currentPlayer (state_of (handleResultValidation s)) =
     (if roundWon s \<or> '''' \<notin> set (gameState s) then currentPlayer s else otherPlayer (currentPlayer s))"
  "playerXScore (state_of (handleResultValidation s)) =
     (if roundWon s \<and> currentPlayer s = ''X'' then playerXScore s + 1 else playerXScore s)"
  "playerOScore (state_of (handleResultValidation s)) =
     (if roundWon s \<and> currentPlayer s \<noteq> ''X'' then playerOScore s + 1 else playerOScore s)"
  "length (cells (state_of (handleResultValidation s))) = length (cells s)"
  "statusDisplay (state_of (handleResultValidation s)) =
     (if roundWon s then winMessage s
      else if '''' \<notin> set (gameState s) then drawMessage
      else currentPlayerTurn (s\<lparr>currentPlayer := otherPlayer (currentPlayer s)\<rparr>))"
proof -
  obtain w l where wl: "checkConditions (gameState s) winningConditions = (w, l)"
    by (cases "checkConditions (gameState s) winningConditions")
  let ?r = "highlightWinningCells l
              (updateScore (s\<lparr>statusDisplay := winMessage s, gameActive := False\<rparr>))"
  have win: "w \<Longrightarrow> state_of (handleResultValidation s) =
      (case ?r of Returned s' \<Rightarrow> s'\<lparr>gameBoard := classList_remove [''turn-x'', ''turn-o''] (gameBoard s')\<rparr>
               | Threw e s' \<Rightarrow> s')"
    by (simp add: handleResultValidation_def wl Let_def state_of_andThen_Returned)
  have nowin: "\<not> w \<Longrightarrow> handleResultValidation s =
      (if '''' \<notin> set (gameState s)
       then Returned (s\<lparr>statusDisplay := drawMessage, gameActive := False,
                gameBoard := classList_remove [''turn-x'', ''turn-o''] (gameBoard s)\<rparr>)
       else Returned (handlePlayerChange s))"
    by (simp add: handleResultValidation_def wl Let_def)
  have hl: "gameState (state_of ?r) = gameState s" "gameActive (state_of ?r) = False"
    "currentPlayer (state_of ?r) = currentPlayer s"
    "playerXScore (state_of ?r) = (if currentPlayer s = ''X'' then playerXScore s + 1 else playerXScore s)"
    "playerOScore (state_of ?r) = (if currentPlayer s \<noteq> ''X'' then playerOScore s + 1 else playerOScore s)"
    "length (cells (state_of ?r)) = length (cells s)"
    "statusDisplay (state_of ?r) = winMessage s"
    by (simp_all add: highlight_fields updateScore_def Let_def)
  have rw: "roundWon s = w" by (simp add: roundWon_def wl)
  show "gameState (state_of (handleResultValidation s)) = gameState s"
    using hl(1) by (cases w; cases ?r) (simp_all add: win nowin handlePlayerChange_def Let_def)
  show "gameActive (state_of (handleResultValidation s)) = (gameActive s \<and> \<not> roundWon s \<and> '''' \<in> set (gameState s))"
    using hl(2) by (cases w; cases ?r) (simp_all add: rw win nowin handlePlayerChange_def Let_def)
  show "currentPlayer (state_of (handleResultValidation s)) =
     (if roundWon s \<or> '''' \<notin> set (gameState s) then currentPlayer s else otherPlayer (currentPlayer s))"
    using hl(3) by (cases w; cases ?r) (simp_all add: rw win nowin handlePlayerChange_def Let_def otherPlayer_def)
  show "playerXScore (state_of (handleResultValidation s)) =
     (if roundWon s \<and> currentPlayer s = ''X'' then playerXScore s + 1 else playerXScore s)"
    using hl(4) by (cases w; cases ?r) (simp_all add: rw win nowin handlePlayerChange_def Let_def)
  show "playerOScore (state_of (handleResultValidation s)) =
     (if roundWon s \<and> currentPlayer s \<noteq> ''X'' then playerOScore s + 1 else playerOScore s)"
    using hl(5) by (cases w; cases ?r) (simp_all add: rw win nowin handlePlayerChange_def Let_def)
  show "length (cells (state_of (handleResultValidation s))) = length (cells s)"
    using hl(6) by (cases w; cases ?r) (simp_all add: rw win nowin handlePlayerChange_def Let_def)
  show "statusDisplay (state_of (handleResultValidation s)) =
     (if roundWon s then winMessage s
      else if '''' \<notin> set (gameState s) then drawMessage
      else currentPlayerTurn (s\<lparr>currentPlayer := otherPlayer (currentPlayer s)\<rparr>))"
    using hl(7) by (cases w; cases ?r)
      (simp_all add: rw win nowin handlePlayerChange_def Let_def otherPlayer_def currentPlayerTurn_def)
qed


subsection \<open>The loop over the table\<close>

lemma winningConditions_spec: "winningConditions = spec_triples"
  by (simp add: winningConditions_def spec_triples_def)

lemma checkConditions_find:
  "\<forall>(a, b, c) \<in> set ts. a < length gs \<and> b < length gs \<and> c < length gs \<Longrightarrow>
   checkConditions gs ts =
     (case find (full_line gs) ts of None \<Rightarrow> (False, []) | Some (a, b, c) \<Rightarrow> (True, [a, b, c]))"
proof (induction ts)
  case Nil
  then show ?case by simp
next
  case (Cons t ts)
  obtain a b c where t: "t = (a, b, c)" by (cases t)
  from Cons.prems t have lt: "a < length gs" "b < length gs" "c < length gs" by auto
  from Cons.prems have rest: "\<forall>(a, b, c) \<in> set ts. a < length gs \<and> b < length gs \<and> c < length gs"
    by simp
  show ?case
    using Cons.IH [OF rest] lt
    by (auto simp: t full_line_def array_at_def Let_def)
qed

lemma spec_triples_bound:
  "length gs = 9 \<Longrightarrow> \<forall>(a, b, c) \<in> set spec_triples. a < length gs \<and> b < length gs \<and> c < length gs"
  by (simp add: spec_triples_def)

lemma checkConditions_board:
  "length gs = 9 \<Longrightarrow>
   checkConditions gs winningConditions =
     (case find (full_line gs) spec_triples of None \<Rightarrow> (False, []) | Some (a, b, c) \<Rightarrow> (True, [a, b, c]))"
  using checkConditions_find [OF spec_triples_bound] by (simp add: winningConditions_spec)

lemma has_line_find: "has_line gs = (find (full_line gs) spec_triples \<noteq> None)"
  by (auto simp: has_line_def list_ex_iff find_None_iff)

lemma roundWon_has_line: "length (gameState s) = 9 \<Longrightarrow> roundWon s = has_line (gameState s)"
  by (simp add: roundWon_def checkConditions_board has_line_find split: option.splits)

lemma winningLine_find:
  "length (gameState s) = 9 \<Longrightarrow> find (full_line (gameState s)) spec_triples = Some (a, b, c) \<Longrightarrow>
   winningLine s = [a, b, c]"
  by (simp add: winningLine_def checkConditions_board)

lemma click_rejected: "\<not> accepted (CellClick k idx) s \<Longrightarrow> handleCellClick k idx s = Returned s"
  by (auto simp: handleCellClick_def)

lemma mark_token_ok:
  "m = ''X'' \<or> m = ''O'' \<Longrightarrow> token_error (toLowerCase m) = None"
  by (auto simp: toLowerCase_X toLowerCase_O token_error_x token_error_o)

lemma handleCellPlayed_Returned:
  "currentPlayer s = ''X'' \<or> currentPlayer s = ''O'' \<Longrightarrow>
   handleCellPlayed k idx s = Returned (state_of (handleCellPlayed k idx s))"
  using handleCellPlayed_returns [of k idx s] mark_token_ok [of "currentPlayer s"]
  by (cases "handleCellPlayed k idx s") simp_all

lemma click_accepted:
  "accepted (CellClick k idx) s \<Longrightarrow> currentPlayer s = ''X'' \<or> currentPlayer s = ''O'' \<Longrightarrow>
   handleCellClick k idx s = handleResultValidation (state_of (handleCellPlayed k idx s))"
  using handleCellPlayed_Returned [of s k idx]
  by (simp add: handleCellClick_def) (metis andThen.simps(1))

lemma click_gameState:
  "gameState (state_of (handleCellClick k idx s)) =
     (if accepted (CellClick k idx) s then array_put (gameState s) idx (currentPlayer s)
      else gameState s)"
proof (cases "accepted (CellClick k idx) s")
  case False
  then show ?thesis using click_rejected [OF False] by auto
next
  case True
  have played: "gameState (state_of (handleCellPlayed k idx s)) = array_put (gameState s) idx (currentPlayer s)"
    by (rule handleCellPlayed_fields)
  show ?thesis
  proof (cases "handleCellPlayed k idx s")
    case (Returned s1)
    with True played show ?thesis by (auto simp: handleCellClick_def hRV_fields)
  next
    case (Threw err s1)
    with True played show ?thesis by (auto simp: handleCellClick_def)
  qed
qed

lemma array_put_other: "idx \<noteq> Num (int j) \<Longrightarrow> array_put xs idx v ! j = xs ! j"
  by (cases idx) auto

lemma length_array_put: "length (array_put xs idx v) = length xs"
  by (cases idx) auto

subsection \<open>Restart and clicks the guard turns away\<close>

text \<open>
  Claim C3. From every state, also one in which the game is won or drawn,
  \<open>handleRestartGame\<close> leaves a board of nine empty cells, X to move and a game in
  progress, and both score counters as they were.
\<close>

theorem restart_resets_game_keeps_scores:
  "gameState (handleRestartGame s) = replicate 9 ''''
   \<and> currentPlayer (handleRestartGame s) = ''X''
   \<and> displays (handleRestartGame s) InProgress
   \<and> playerXScore (handleRestartGame s) = playerXScore s
   \<and> playerOScore (handleRestartGame s) = playerOScore s"
  by (simp add: handleRestartGame_def Let_def eval_nat_numeral)

text \<open>
  Claim C2. In every state and for every index from 0 to 8, a click on a cell that is
  already occupied, or a click while the game is no longer in progress (won or drawn), is
  a no-op: the handler returns, without an exception, the state it was given, so the
  board, the turn, the game status and the scores are all unchanged.
\<close>

theorem rejected_click_is_noop:
  assumes "0 \<le> i" and "i \<le> 8"
    and "gameState s ! nat i \<noteq> '''' \<or> \<not> displays s InProgress"
  shows "handleCellClick k (Num i) s = Returned s"
proof -
  have "array_get (gameState s) (Num i) \<noteq> Some '''' \<or> \<not> gameActive s"
    using assms by (auto simp: array_at_def)
  then show ?thesis by (simp add: handleCellClick_def)
qed

text \<open>
  Claim C7. On a board of nine cells, a click whose index is not a number or lies outside
  0..8 is a no-op: the handler returns, without an exception, the state it was given.
\<close>

theorem out_of_range_click_is_noop:
  assumes "length (gameState s) = 9"
    and "idx = NaN \<or> (\<exists>i. idx = Num i \<and> (i < 0 \<or> 8 < i))"
  shows "handleCellClick k idx s = Returned s"
proof -
  have "array_get (gameState s) idx = None"
    using assms by (auto simp: array_at_def)
  then show ?thesis by (simp add: handleCellClick_def)
qed

text \<open>
  Claim C9. In every state and for every index, one click leaves the length of the board
  and every cell other than the clicked one as they were (also when the handler throws).
\<close>

theorem click_changes_only_clicked_cell:
  "length (gameState (state_of (handleCellClick k idx s))) = length (gameState s)
   \<and> (\<forall>j. idx \<noteq> Num (int j) \<longrightarrow>
          gameState (state_of (handleCellClick k idx s)) ! j = gameState s ! j)"
  by (simp add: click_gameState array_put_other length_array_put)

theorem rejected_click_is_noop_witness:
  "(0::int) \<le> 4 \<and> (4::int) \<le> 8
   \<and> gameState (run (clicks [4]) (startup blank_page)) ! nat 4 \<noteq> ''''
   \<and> handleCellClick 4 (Num 4) (run (clicks [4]) (startup blank_page))
       = Returned (run (clicks [4]) (startup blank_page))"
proof -
  have occupied: "gameState (run (clicks [4]) (startup blank_page)) ! nat 4 \<noteq> ''''"
    by code_simp
  from rejected_click_is_noop [of 4 "run (clicks [4]) (startup blank_page)" 4] occupied
  show ?thesis by simp
qed

theorem out_of_range_click_is_noop_witness:
  "length (gameState (startup blank_page)) = 9 \<and> (8::int) < 9
   \<and> handleCellClick 0 (Num 9) (startup blank_page) = Returned (startup blank_page)"
proof -
  have len: "length (gameState (startup blank_page)) = 9"
    by (simp add: startup_def handleRestartGame_def Let_def)
  from out_of_range_click_is_noop [OF len, of "Num 9" 0]
  show ?thesis using len by simp
qed

theorem click_changes_only_clicked_cell_witness:
  "Num 0 \<noteq> Num (int 1)
   \<and> gameState (state_of (handleCellClick 0 (Num 0) (startup blank_page))) ! 1
       = gameState (startup blank_page) ! 1"
  using click_changes_only_clicked_cell [of 0 "Num 0" "startup blank_page"] by simp

subsection \<open>The invariants hold in every state the script reaches\<close>

lemma count_list_update_other:
  "i < length xs \<Longrightarrow> xs ! i \<noteq> w \<Longrightarrow> v \<noteq> w \<Longrightarrow> count_list (xs[i := v]) w = count_list xs w"
proof (induction xs arbitrary: i)
  case Nil
  then show ?case by simp
next
  case (Cons x xs)
  then show ?case by (cases i) auto
qed

lemma count_list_update_new:
  "i < length xs \<Longrightarrow> xs ! i \<noteq> v \<Longrightarrow> count_list (xs[i := v]) v = Suc (count_list xs v)"
proof (induction xs arbitrary: i)
  case Nil
  then show ?case by simp
next
  case (Cons x xs)
  then show ?case by (cases i) auto
qed

lemma count_list_update_old:
  "i < length xs \<Longrightarrow> xs ! i = w \<Longrightarrow> v \<noteq> w \<Longrightarrow> Suc (count_list (xs[i := v]) w) = count_list xs w"
proof (induction xs arbitrary: i)
  case Nil
  then show ?case by simp
next
  case (Cons x xs)
  then show ?case by (cases i) auto
qed

lemma accepted_index:
  assumes "accepted (CellClick k idx) s"
  obtains i where "idx = Num (int i)" and "i < length (gameState s)"
    and "gameState s ! i = ''''" and "gameActive s"
proof -
  from assms have get: "array_get (gameState s) idx = Some ''''" and act: "gameActive s"
    by simp_all
  from array_get_in_range [OF get] obtain j
    where j: "idx = Num j" "0 \<le> j" "j < int (length (gameState s))" "gameState s ! nat j = ''''"
    by blast
  show thesis
  proof (rule that [of "nat j"])
    show "idx = Num (int (nat j))" using j by simp
    show "nat j < length (gameState s)" using j by simp
    show "gameState s ! nat j = ''''" using j by simp
    show "gameActive s" by (rule act)
  qed
qed

lemma array_put_in_range: "i < length xs \<Longrightarrow> array_put xs (Num (int i)) v = xs[i := v]"
  by simp

text \<open>The state after an accepted click by X or O, field by field.\<close>

lemma accepted_click_fields:
  assumes acc: "accepted (CellClick k idx) s"
    and cp: "currentPlayer s = ''X'' \<or> currentPlayer s = ''O''"
    and len: "length (gameState s) = 9"
  defines "s' \<equiv> state_of (handleCellClick k idx s)"
  defines "gs' \<equiv> array_put (gameState s) idx (currentPlayer s)"
  shows "gameState s' = gs'"
    and "gameActive s' = (\<not> has_line gs' \<and> '''' \<in> set gs')"
    and "currentPlayer s' =
           (if has_line gs' \<or> '''' \<notin> set gs' then currentPlayer s else otherPlayer (currentPlayer s))"
    and "playerXScore s' =
           (if has_line gs' \<and> currentPlayer s = ''X'' then playerXScore s + 1 else playerXScore s)"
    and "playerOScore s' =
           (if has_line gs' \<and> currentPlayer s \<noteq> ''X'' then playerOScore s + 1 else playerOScore s)"
    and "length (cells s') = length (cells s)"
    and "statusDisplay s' =
           (if has_line gs' then ''Player '' @ currentPlayer s @ '' has won!''
            else if '''' \<notin> set gs' then ''Game ended in a draw!''
            else currentPlayerTurn (s\<lparr>currentPlayer := otherPlayer (currentPlayer s)\<rparr>))"
proof -
  let ?s1 = "state_of (handleCellPlayed k idx s)"
  have s': "s' = state_of (handleResultValidation ?s1)"
    unfolding s'_def using click_accepted [OF acc cp] by simp
  have gs1: "gameState ?s1 = gs'"
    unfolding gs'_def by (rule handleCellPlayed_fields)
  have len1: "length (gameState ?s1) = 9"
    using len by (simp add: handleCellPlayed_fields length_array_put)
  have won: "roundWon ?s1 = has_line gs'"
    using roundWon_has_line [OF len1] gs1 by simp
  have act: "gameActive s" using acc by simp
  show "gameState s' = gs'" by (simp add: s' hRV_fields gs1)
  show "gameActive s' = (\<not> has_line gs' \<and> '''' \<in> set gs')"
    by (simp add: s' hRV_fields won gs1 handleCellPlayed_fields(1) act)
  show "currentPlayer s' =
      (if has_line gs' \<or> '''' \<notin> set gs' then currentPlayer s else otherPlayer (currentPlayer s))"
    by (simp add: s' hRV_fields won gs1 handleCellPlayed_fields(2))
  show "playerXScore s' =
      (if has_line gs' \<and> currentPlayer s = ''X'' then playerXScore s + 1 else playerXScore s)"
    by (simp add: s' hRV_fields won handleCellPlayed_fields(2,4))
  show "playerOScore s' =
      (if has_line gs' \<and> currentPlayer s \<noteq> ''X'' then playerOScore s + 1 else playerOScore s)"
    by (simp add: s' hRV_fields won handleCellPlayed_fields(2,5))
  show "length (cells s') = length (cells s)"
    by (simp add: s' hRV_fields handleCellPlayed_fields(7))
  show "statusDisplay s' =
      (if has_line gs' then ''Player '' @ currentPlayer s @ '' has won!''
       else if '''' \<notin> set gs' then ''Game ended in a draw!''
       else currentPlayerTurn (s\<lparr>currentPlayer := otherPlayer (currentPlayer s)\<rparr>))"
    by (simp add: s' hRV_fields won gs1 handleCellPlayed_fields(2) winMessage_def drawMessage_def
        currentPlayerTurn_def)
qed

lemma no_line_empty_board:
  "\<not> has_line ['''', '''', '''', '''', '''', '''', '''', '''', '''']"
  by (simp add: has_line_def spec_triples_def full_line_def)

lemma game_inv_restart: "game_inv (handleRestartGame s)"
  by (simp add: game_inv_def handleRestartGame_def Let_def no_line_empty_board)

lemma game_inv_click:
  assumes inv: "game_inv s"
  shows "game_inv (state_of (handleCellClick k idx s))"
proof (cases "accepted (CellClick k idx) s")
  case False
  then show ?thesis using inv by (simp add: click_rejected)
next
  case True
  from inv have len: "length (gameState s) = 9"
    and marks: "set (gameState s) \<subseteq> {'''', ''X'', ''O''}"
    and cp: "currentPlayer s = ''X'' \<or> currentPlayer s = ''O''"
    by (simp_all add: game_inv_def)
  from True obtain i where i: "idx = Num (int i)" "i < length (gameState s)"
    "gameState s ! i = ''''" "gameActive s"
    by (rule accepted_index)
  from inv i(4) have cnt: "count_list (gameState s) ''X''
      = count_list (gameState s) ''O'' + (if currentPlayer s = ''X'' then 0 else 1)"
    by (simp add: game_inv_def)
  let ?s' = "state_of (handleCellClick k idx s)"
  let ?gs' = "(gameState s)[i := currentPlayer s]"
  note f = accepted_click_fields [OF True cp len, unfolded i(1) array_put_in_range [OF i(2)],
      folded i(1)]
  have len': "length (gameState ?s') = 9" using len by (simp add: f(1))
  have marks': "set (gameState ?s') \<subseteq> {'''', ''X'', ''O''}"
    using marks cp set_update_subset_insert [of "gameState s" i "currentPlayer s"]
    by (auto simp: f(1))
  have cp': "currentPlayer ?s' = ''X'' \<or> currentPlayer ?s' = ''O''"
    using cp by (auto simp: f(3) otherPlayer_def)
  have cX: "count_list ?gs' ''X'' = count_list (gameState s) ''X'' + (if currentPlayer s = ''X'' then 1 else 0)"
    using i(2,3) count_list_update_new [of i "gameState s" "''X''"]
      count_list_update_other [of i "gameState s" "''X''" "currentPlayer s"]
    by auto
  have cO: "count_list ?gs' ''O'' = count_list (gameState s) ''O'' + (if currentPlayer s = ''X'' then 0 else 1)"
    using i(2,3) cp count_list_update_new [of i "gameState s" "''O''"]
      count_list_update_other [of i "gameState s" "''O''" "currentPlayer s"]
    by auto
  show ?thesis
    unfolding game_inv_def
    using len' marks' cp' cnt cp
    by (auto simp: f(1,2,3) cX cO otherPlayer_def)
qed

lemma game_inv_dispatch: "game_inv s \<Longrightarrow> game_inv (state_of (dispatch e s))"
  by (cases e) (simp_all add: game_inv_click game_inv_restart)

lemma game_inv_startup: "game_inv (startup page)"
  by (simp add: startup_def game_inv_restart)

lemma game_inv_run_from: "game_inv s \<Longrightarrow> game_inv (run es s)"
  by (induction es arbitrary: s) (simp_all add: game_inv_dispatch)

lemma game_inv_run: "game_inv (run es (startup page))"
  by (rule game_inv_run_from [OF game_inv_startup])

lemma highlighted_Nil_iff:
  "highlighted s = [] \<longleftrightarrow> (\<forall>j<length (cells s). \<not> is_highlighted s j)"
  by (auto simp: highlighted_def filter_empty_conv)

lemma handleCellPlayed_is_highlighted:
  assumes "currentPlayer s = ''X'' \<or> currentPlayer s = ''O''"
  shows "is_highlighted (state_of (handleCellPlayed k idx s)) j = is_highlighted s j"
proof (cases "k < length (cells s)")
  case True
  with assms show ?thesis
    by (auto simp: handleCellPlayed_def Let_def is_highlighted_def nth_list_update
        toLowerCase_X toLowerCase_O token_error_x token_error_o classList_add_def
        split: if_splits)
next
  case False
  with assms show ?thesis
    by (auto simp: handleCellPlayed_def Let_def is_highlighted_def list_update_beyond
        toLowerCase_X toLowerCase_O token_error_x token_error_o)
qed

lemma highlight_all:
  "\<forall>w \<in> set ws. w < length (cells s) \<Longrightarrow>
   returns (highlightWinningCells ws s)
   \<and> (\<forall>j<length (cells s).
         is_highlighted (state_of (highlightWinningCells ws s)) j = (j \<in> set ws \<or> is_highlighted s j))"
proof (induction ws s rule: highlightWinningCells.induct)
  case (1 s)
  then show ?case by simp
next
  case (2 index rest s)
  let ?s = "s\<lparr>cells := (cells s)[index :=
             (cells s ! index)\<lparr>classList :=
                classList_add ''winning-cell'' (classList (cells s ! index))\<rparr>]\<rparr>"
  from "2.prems" have idx: "index < length (cells s)"
    and rest: "\<forall>w \<in> set rest. w < length (cells ?s)" by simp_all
  have one: "\<And>j. j < length (cells s) \<Longrightarrow> is_highlighted ?s j = (j = index \<or> is_highlighted s j)"
    using idx by (auto simp: is_highlighted_def nth_list_update classList_add_def)
  from "2.IH" [OF idx rest] one idx show ?case by auto
qed

lemma hRV_nowin_cells:
  "\<not> roundWon s \<Longrightarrow> cells (state_of (handleResultValidation s)) = cells s"
  by (auto simp: handleResultValidation_def roundWon_def Let_def handlePlayerChange_def
      split: prod.splits)

lemma hRV_win_cells:
  assumes won: "roundWon s" and lt: "\<forall>w \<in> set (winningLine s). w < length (cells s)"
  shows "returns (handleResultValidation s)"
    and "\<forall>j<length (cells s).
           is_highlighted (state_of (handleResultValidation s)) j
             = (j \<in> set (winningLine s) \<or> is_highlighted s j)"
proof -
  let ?s3 = "updateScore (s\<lparr>statusDisplay := winMessage s, gameActive := False\<rparr>)"
  let ?r = "highlightWinningCells (winningLine s) ?s3"
  have cells3: "cells ?s3 = cells s" by (simp add: updateScore_def Let_def)
  have hi3: "\<And>j. is_highlighted ?s3 j = is_highlighted s j"
    by (simp add: is_highlighted_def cells3)
  from lt have lt3: "\<forall>w \<in> set (winningLine s). w < length (cells ?s3)" by (simp add: cells3)
  from highlight_all [OF lt3] have ret: "returns ?r"
    and hi: "\<forall>j<length (cells s). is_highlighted (state_of ?r) j = (j \<in> set (winningLine s) \<or> is_highlighted s j)"
    by (simp_all add: cells3 hi3)
  from ret obtain s4 where s4: "?r = Returned s4" by (cases ?r) simp_all
  have eq: "handleResultValidation s =
      Returned (s4\<lparr>gameBoard := classList_remove [''turn-x'', ''turn-o''] (gameBoard s4)\<rparr>)"
  proof -
    from won have "checkConditions (gameState s) winningConditions = (True, winningLine s)"
      by (simp add: roundWon_def winningLine_def prod_eq_iff)
    with s4 show ?thesis by (simp add: handleResultValidation_def Let_def)
  qed
  show "returns (handleResultValidation s)" by (simp add: eq)
  show "\<forall>j<length (cells s).
           is_highlighted (state_of (handleResultValidation s)) j
             = (j \<in> set (winningLine s) \<or> is_highlighted s j)"
    using hi by (simp add: eq s4 is_highlighted_def)
qed

lemma hRV_nowin_returns: "\<not> roundWon s \<Longrightarrow> returns (handleResultValidation s)"
  by (auto simp: handleResultValidation_def roundWon_def Let_def split: prod.splits)

lemma page_inv_restart: "length (cells s) = 9 \<Longrightarrow> page_inv (handleRestartGame s)"
  by (simp add: page_inv_def highlighted_Nil_iff handleRestartGame_def Let_def is_highlighted_def
      classList_remove_def)

lemma page_inv_click:
  assumes g: "game_inv s" and p: "page_inv s"
  shows "page_inv (state_of (handleCellClick k idx s))"
proof (cases "accepted (CellClick k idx) s")
  case False
  then show ?thesis using p by (simp add: click_rejected)
next
  case True
  from g have len: "length (gameState s) = 9"
    and cp: "currentPlayer s = ''X'' \<or> currentPlayer s = ''O''"
    by (simp_all add: game_inv_def)
  let ?s1 = "state_of (handleCellPlayed k idx s)"
  let ?s' = "state_of (handleCellClick k idx s)"
  have s': "?s' = state_of (handleResultValidation ?s1)"
    using click_accepted [OF True cp] by simp
  have act: "gameActive s" using True by simp
  have len': "length (cells ?s') = 9"
    using p by (simp add: s' hRV_fields handleCellPlayed_fields page_inv_def)
  have "highlighted ?s' = []" if active: "gameActive ?s'"
  proof -
    from active have nowin: "\<not> roundWon ?s1" by (simp add: s' hRV_fields)
    have "cells ?s' = cells ?s1" by (simp add: s' hRV_nowin_cells [OF nowin])
    then have "is_highlighted ?s' j = is_highlighted s j" for j
      using handleCellPlayed_is_highlighted [OF cp, of k idx j] by (simp add: is_highlighted_def)
    with p act len' show ?thesis
      by (simp add: page_inv_def highlighted_Nil_iff)
  qed
  with len' show ?thesis by (simp add: page_inv_def)
qed

lemma page_inv_dispatch:
  "game_inv s \<Longrightarrow> page_inv s \<Longrightarrow> page_inv (state_of (dispatch e s))"
proof (cases e)
  case (CellClick k idx)
  assume "game_inv s" and "page_inv s"
  then show ?thesis by (simp add: CellClick page_inv_click)
next
  case RestartClick
  assume "page_inv s"
  then have "length (cells s) = 9" by (simp add: page_inv_def)
  then show ?thesis by (simp add: RestartClick page_inv_restart)
qed

lemma page_inv_run_from:
  "game_inv s \<Longrightarrow> page_inv s \<Longrightarrow> page_inv (run es s)"
  by (induction es arbitrary: s) (simp_all add: page_inv_dispatch game_inv_dispatch)

lemma page_inv_run: "length (cells page) = 9 \<Longrightarrow> page_inv (run es (startup page))"
  by (rule page_inv_run_from [OF game_inv_startup]) (simp add: startup_def page_inv_restart)

text \<open>
  Claim C8. In every state reached from the start of the script by any cell clicks (with
  any index, accepted or not) and restart clicks, the board has nine cells, each empty or
  marked X or O, and the number of cells marked X is the number marked O or one more.
\<close>

theorem reachable_board_counts:
  "length (gameState (run es (startup page))) = 9
   \<and> set (gameState (run es (startup page))) \<subseteq> {'''', ''X'', ''O''}
   \<and> (count_list (gameState (run es (startup page))) ''X''
        = count_list (gameState (run es (startup page))) ''O''
      \<or> count_list (gameState (run es (startup page))) ''X''
        = count_list (gameState (run es (startup page))) ''O'' + 1)"
  using game_inv_run [of es page] by (auto simp: game_inv_def split: if_splits)

lemma array_get_put_same:
  "array_get xs idx = Some w \<Longrightarrow> array_get (array_put xs idx v) idx = Some v"
  by (cases idx) (auto simp: array_at_def split: if_splits)

text \<open>
  Claim C10. When an accepted click of X or O ends with the game shown as won by \<open>m\<close>, then
  \<open>m\<close> is the player who clicked: when the board is evaluated the turn still is \<open>m\<close> and
  the clicked cell holds \<open>m\<close>, the turn is not passed on afterwards, and the counter that
  goes up by one is the counter of \<open>m\<close>, the other one staying as it was.
\<close>

theorem winning_move_keeps_turn:
  assumes acc: "accepted (CellClick k idx) s"
    and cp: "currentPlayer s = ''X'' \<or> currentPlayer s = ''O''"
    and won: "displays (state_of (handleCellClick k idx s)) (Won m line)"
  shows "m = currentPlayer s
    \<and> currentPlayer (state_of (handleCellPlayed k idx s)) = m
    \<and> array_get (gameState (state_of (handleCellPlayed k idx s))) idx = Some m
    \<and> currentPlayer (state_of (handleCellClick k idx s)) = m
    \<and> score m (state_of (handleCellClick k idx s)) = score m s + 1
    \<and> score (otherPlayer m) (state_of (handleCellClick k idx s)) = score (otherPlayer m) s"
proof -
  let ?s1 = "state_of (handleCellPlayed k idx s)"
  let ?s' = "state_of (handleCellClick k idx s)"
  have s': "?s' = state_of (handleResultValidation ?s1)"
    using click_accepted [OF acc cp] by simp
  from acc have act1: "gameActive ?s1" and empty: "array_get (gameState s) idx = Some ''''"
    by (simp_all add: handleCellPlayed_fields)
  from won have inactive: "\<not> gameActive ?s'"
    and msg: "statusDisplay ?s' = ''Player '' @ m @ '' has won!''"
    by simp_all
  have rw: "roundWon ?s1"
  proof (rule ccontr)
    assume no: "\<not> roundWon ?s1"
    with inactive act1 have "'''' \<notin> set (gameState ?s1)" by (simp add: s' hRV_fields)
    with no have "statusDisplay ?s' = drawMessage" by (simp add: s' hRV_fields)
    with msg show False by (simp add: drawMessage_def)
  qed
  then have "statusDisplay ?s' = ''Player '' @ currentPlayer s @ '' has won!''"
    by (simp add: s' hRV_fields winMessage_def handleCellPlayed_fields)
  with msg have m: "m = currentPlayer s" by simp
  have placed: "array_get (gameState ?s1) idx = Some m"
    using array_get_put_same [OF empty] by (simp add: handleCellPlayed_fields m)
  have turn: "currentPlayer ?s' = m"
    using rw by (simp add: s' hRV_fields handleCellPlayed_fields m)
  have up: "score m ?s' = score m s + 1"
    using rw by (simp add: score_def s' hRV_fields handleCellPlayed_fields m)
  have same: "score (otherPlayer m) ?s' = score (otherPlayer m) s"
    using rw cp by (auto simp: score_def otherPlayer_def s' hRV_fields handleCellPlayed_fields m)
  from m placed turn up same show ?thesis
    by (simp add: handleCellPlayed_fields)
qed

theorem winning_move_keeps_turn_witness:
  "accepted (CellClick 2 (Num 2)) (run (clicks [0, 3, 1, 4]) (startup blank_page))
   \<and> currentPlayer (run (clicks [0, 3, 1, 4]) (startup blank_page)) = ''X''
   \<and> displays (state_of (handleCellClick 2 (Num 2) (run (clicks [0, 3, 1, 4]) (startup blank_page))))
        (Won ''X'' [0, 1, 2])
   \<and> score ''X'' (state_of (handleCellClick 2 (Num 2) (run (clicks [0, 3, 1, 4]) (startup blank_page))))
        = score ''X'' (run (clicks [0, 3, 1, 4]) (startup blank_page)) + 1
   \<and> score (otherPlayer ''X'')
          (state_of (handleCellClick 2 (Num 2) (run (clicks [0, 3, 1, 4]) (startup blank_page))))
        = score (otherPlayer ''X'') (run (clicks [0, 3, 1, 4]) (startup blank_page))"
proof -
  let ?s = "run (clicks [0, 3, 1, 4]) (startup blank_page)"
  have acc: "accepted (CellClick 2 (Num 2)) ?s" by code_simp
  have cp: "currentPlayer ?s = ''X''" by code_simp
  have won: "displays (state_of (handleCellClick 2 (Num 2) ?s)) (Won ''X'' [0, 1, 2])"
    by code_simp
  from winning_move_keeps_turn [OF acc _ won] cp acc won show ?thesis by simp
qed

subsection \<open>What the state shows after an accepted click\<close>

lemma new_line_mark:
  "\<not> full_line gs (a, b, c) \<Longrightarrow> full_line (gs[i := m]) (a, b, c) \<Longrightarrow> i < length gs \<Longrightarrow>
   gs[i := m] ! a = m"
  by (auto simp: full_line_def nth_list_update split: if_splits)

lemma upt_9: "[0..<9] = [0, 1, 2, 3, 4, 5, 6, 7, 8]"
  by (simp add: upt_rec)

lemma spec_triples_cases:
  assumes "t \<in> set spec_triples"
  shows "t = (0, 1, 2) \<or> t = (3, 4, 5) \<or> t = (6, 7, 8) \<or> t = (0, 3, 6) \<or> t = (1, 4, 7)
    \<or> t = (2, 5, 8) \<or> t = (0, 4, 8) \<or> t = (2, 4, 6)"
  using assms by (simp add: winningConditions_spec [symmetric] winningConditions_def)

lemma filter_line:
  assumes "(a, b, c) \<in> set spec_triples"
  shows "filter (\<lambda>j. j \<in> set [a, b, c]) [0..<9] = [a, b, c]"
  using spec_triples_cases [OF assms] by (elim disjE) (simp_all add: upt_9)

lemma find_in_spec_triples:
  "find P spec_triples = Some t \<Longrightarrow> t \<in> set spec_triples \<and> P t"
  by (auto simp: find_Some_iff)

lemma accepted_win_display:
  assumes g: "game_inv s" and p: "page_inv s" and acc: "accepted (CellClick k idx) s"
    and fnd: "find (full_line (array_put (gameState s) idx (currentPlayer s))) spec_triples
                = Some (a, b, c)"
  shows "returns (handleCellClick k idx s)"
    and "highlighted (state_of (handleCellClick k idx s)) = [a, b, c]"
    and "array_put (gameState s) idx (currentPlayer s) ! a = currentPlayer s"
proof -
  from g have len: "length (gameState s) = 9"
    and cp: "currentPlayer s = ''X'' \<or> currentPlayer s = ''O''"
    by (simp_all add: game_inv_def)
  from acc obtain i where i: "idx = Num (int i)" "i < length (gameState s)"
    "gameState s ! i = ''''" "gameActive s"
    by (rule accepted_index)
  from p i(4) have cells9: "length (cells s) = 9" and clean: "\<forall>j<9. \<not> is_highlighted s j"
    by (simp_all add: page_inv_def highlighted_Nil_iff)
  let ?s1 = "state_of (handleCellPlayed k idx s)"
  let ?s' = "state_of (handleCellClick k idx s)"
  let ?gs' = "array_put (gameState s) idx (currentPlayer s)"
  have click: "handleCellClick k idx s = handleResultValidation ?s1"
    by (rule click_accepted [OF acc cp])
  have gs1: "gameState ?s1 = ?gs'" by (rule handleCellPlayed_fields)
  have len1: "length (gameState ?s1) = 9" by (simp add: gs1 length_array_put len)
  have cells1: "length (cells ?s1) = 9" by (simp add: handleCellPlayed_fields cells9)
  from find_in_spec_triples [OF fnd]
  have mem: "(a, b, c) \<in> set spec_triples" and full: "full_line ?gs' (a, b, c)" by simp_all
  have won: "roundWon ?s1"
    using fnd by (simp add: roundWon_has_line [OF len1] has_line_find gs1)
  have line: "winningLine ?s1 = [a, b, c]"
    using winningLine_find [OF len1] fnd by (simp add: gs1)
  from spec_triples_cases [OF mem] have "a < 9 \<and> b < 9 \<and> c < 9" by auto
  then have lt: "\<forall>w \<in> set (winningLine ?s1). w < length (cells ?s1)"
    by (simp add: line cells1)
  from hRV_win_cells [OF won lt]
  have ret: "returns (handleResultValidation ?s1)"
    and hi: "\<forall>j<9. is_highlighted (state_of (handleResultValidation ?s1)) j
                    = (j \<in> set [a, b, c] \<or> is_highlighted ?s1 j)"
    by (simp_all add: line cells1)
  show "returns (handleCellClick k idx s)" by (simp add: click ret)
  have cells': "length (cells ?s') = 9" by (simp add: click hRV_fields cells1)
  have "\<forall>j<9. is_highlighted ?s' j = (j \<in> set [a, b, c])"
    using hi clean by (simp add: click handleCellPlayed_is_highlighted [OF cp])
  then have "filter (is_highlighted ?s') [0..<9] = filter (\<lambda>j. j \<in> set [a, b, c]) [0..<9]"
    by (intro filter_cong) auto
  with filter_line [OF mem] show "highlighted ?s' = [a, b, c]"
    by (simp add: highlighted_def cells')
  have before: "\<not> full_line (gameState s) (a, b, c)"
    using g i(4) mem by (auto simp: game_inv_def has_line_def list_ex_iff)
  show "?gs' ! a = currentPlayer s"
    using new_line_mark [OF before _ i(2), of "currentPlayer s"] full
    by (simp add: i(1) i(2))
qed

text \<open>
  Claim C4. The table \<open>winningConditions\<close> is the eight lines in the order of the
  specification: the rows from top to bottom, the columns from left to right, the two
  diagonals. After every accepted click in a state the script reaches (on a page with nine
  cells), the handler returns and the state shows the specification's evaluation of the
  new board: the game won, by the mark on it, on the first line of the table that is
  full; a draw when no line is full and no cell is empty; a game in progress otherwise.
\<close>

theorem evaluation_follows_specification:
  assumes page: "length (cells page) = 9"
    and acc: "accepted (CellClick k idx) (run es (startup page))"
  shows "winningConditions = spec_triples
    \<and> returns (handleCellClick k idx (run es (startup page)))
    \<and> displays (state_of (handleCellClick k idx (run es (startup page))))
         (spec_evaluate (gameState (state_of (handleCellClick k idx (run es (startup page))))))"
proof -
  let ?s = "run es (startup page)"
  let ?s' = "state_of (handleCellClick k idx ?s)"
  let ?gs' = "array_put (gameState ?s) idx (currentPlayer ?s)"
  have g: "game_inv ?s" by (rule game_inv_run)
  have p: "page_inv ?s" by (rule page_inv_run [OF page])
  from g have len: "length (gameState ?s) = 9"
    and cp: "currentPlayer ?s = ''X'' \<or> currentPlayer ?s = ''O''"
    by (simp_all add: game_inv_def)
  note f = accepted_click_fields [OF acc cp len]
  have shown: "displays ?s' (spec_evaluate ?gs')"
  proof (cases "find (full_line ?gs') spec_triples")
    case None
    then have "\<not> has_line ?gs'" by (simp add: has_line_find)
    then show ?thesis by (simp add: spec_evaluate_def None f(2,7))
  next
    case (Some t)
    obtain a b c where t: "t = (a, b, c)" by (cases t)
    from Some have line: "has_line ?gs'" by (simp add: has_line_find)
    note w = accepted_win_display [OF g p acc Some [unfolded t]]
    show ?thesis
      using line w(2,3) by (simp add: spec_evaluate_def Some t f(2,7))
  qed
  have ret: "returns (handleCellClick k idx ?s)"
  proof (cases "find (full_line ?gs') spec_triples")
    case None
    then have "\<not> roundWon (state_of (handleCellPlayed k idx ?s))"
      using roundWon_has_line [of "state_of (handleCellPlayed k idx ?s)"] len
      by (simp add: has_line_find handleCellPlayed_fields length_array_put)
    then show ?thesis
      by (simp add: click_accepted [OF acc cp] hRV_nowin_returns)
  next
    case (Some t)
    obtain a b c where t: "t = (a, b, c)" by (cases t)
    from accepted_win_display(1) [OF g p acc Some [unfolded t]] show ?thesis .
  qed
  from shown ret show ?thesis by (simp add: f(1) winningConditions_spec)
qed

theorem evaluation_follows_specification_witness:
  "length (cells blank_page) = 9
   \<and> accepted (CellClick 2 (Num 2)) (run (clicks [0, 3, 1, 4]) (startup blank_page))
   \<and> returns (handleCellClick 2 (Num 2) (run (clicks [0, 3, 1, 4]) (startup blank_page)))
   \<and> spec_evaluate
         (gameState (state_of (handleCellClick 2 (Num 2) (run (clicks [0, 3, 1, 4]) (startup blank_page)))))
       = Won ''X'' [0, 1, 2]
   \<and> displays (state_of (handleCellClick 2 (Num 2) (run (clicks [0, 3, 1, 4]) (startup blank_page))))
        (Won ''X'' [0, 1, 2])"
proof -
  let ?s = "run (clicks [0, 3, 1, 4]) (startup blank_page)"
  have page: "length (cells blank_page) = 9" by (simp add: blank_page_def)
  have acc: "accepted (CellClick 2 (Num 2)) ?s" by code_simp
  have ev: "spec_evaluate (gameState (state_of (handleCellClick 2 (Num 2) ?s))) = Won ''X'' [0, 1, 2]"
    by code_simp
  from evaluation_follows_specification [OF page acc] page acc ev show ?thesis by simp
qed

subsection \<open>Completing a line\<close>

lemma find_first_of_two:
  "find P xs = Some y \<Longrightarrow> x \<in> set xs \<Longrightarrow> P x \<Longrightarrow>
   \<forall>u \<in> set (takeWhile (\<lambda>u. u \<noteq> x) xs). \<not> P u \<Longrightarrow> y = x"
proof (induction xs)
  case Nil
  then show ?case by simp
next
  case (Cons z zs)
  then show ?case by (cases "z = x") (auto split: if_splits)
qed

lemma completes_accepted:
  assumes g: "game_inv s" and c: "completes s idx m t"
  shows "accepted (CellClick k idx) s"
proof -
  from c have get: "array_get (gameState s) idx = Some ''''" and no: "\<not> has_line (gameState s)"
    by (simp_all add: completes_def)
  from array_get_in_range [OF get] have "'''' \<in> set (gameState s)"
    by (metis nat_less_iff nth_mem)
  with g no have "gameActive s" by (auto simp: game_inv_def split: if_splits)
  with get show ?thesis by simp
qed

text \<open>
  Claim C1, as the script has it. In a state the script reaches (on a page with nine cells),
  let the player \<open>m\<close> complete a line \<open>t\<close> of the table, nobody having completed a line
  before. Then the handler returns, the game is shown as won by \<open>m\<close> on the first line of
  the table that is full on the new board, the counter of \<open>m\<close> has gone up by exactly
  one and the other counter is unchanged. The line shown is \<open>t\<close> itself unless the same
  move has also filled a line that comes before \<open>t\<close> in the table.
\<close>

theorem completed_line_wins:
  assumes page: "length (cells page) = 9"
    and c: "completes (run es (startup page)) idx m t"
  shows "\<exists>t'. find (full_line (gameState (state_of (handleCellClick k idx (run es (startup page))))))
                spec_triples = Some t'
     \<and> ((\<forall>u \<in> set (takeWhile (\<lambda>u. u \<noteq> t) spec_triples).
            \<not> full_line (gameState (state_of (handleCellClick k idx (run es (startup page))))) u)
          \<longrightarrow> t' = t)
     \<and> returns (handleCellClick k idx (run es (startup page)))
     \<and> displays (state_of (handleCellClick k idx (run es (startup page)))) (Won m (line_cells t'))
     \<and> score m (state_of (handleCellClick k idx (run es (startup page))))
         = score m (run es (startup page)) + 1
     \<and> score (otherPlayer m) (state_of (handleCellClick k idx (run es (startup page))))
         = score (otherPlayer m) (run es (startup page))"
proof -
  let ?s = "run es (startup page)"
  let ?s' = "state_of (handleCellClick k idx ?s)"
  let ?gs' = "array_put (gameState ?s) idx (currentPlayer ?s)"
  have g: "game_inv ?s" by (rule game_inv_run)
  have p: "page_inv ?s" by (rule page_inv_run [OF page])
  from g have len: "length (gameState ?s) = 9"
    and cp: "currentPlayer ?s = ''X'' \<or> currentPlayer ?s = ''O''"
    by (simp_all add: game_inv_def)
  have acc: "accepted (CellClick k idx) ?s" by (rule completes_accepted [OF g c])
  from c have m: "currentPlayer ?s = m" and t: "t \<in> set spec_triples"
    and full: "full_line ?gs' t"
    by (simp_all add: completes_def)
  note f = accepted_click_fields [OF acc cp len]
  from t full have line: "has_line ?gs'" by (auto simp: has_line_def list_ex_iff)
  then obtain t' where fnd: "find (full_line ?gs') spec_triples = Some t'"
    by (auto simp: has_line_find)
  obtain a b c where t': "t' = (a, b, c)" by (cases t')
  note w = accepted_win_display [OF g p acc fnd [unfolded t']]
  have first: "(\<forall>u \<in> set (takeWhile (\<lambda>u. u \<noteq> t) spec_triples). \<not> full_line ?gs' u) \<longrightarrow> t' = t"
    using find_first_of_two [OF fnd t full] by blast
  have shown: "displays ?s' (Won m (line_cells t'))"
    using line w(2) by (simp add: f(2,7) t' line_cells_def m)
  have up: "score m ?s' = score m ?s + 1"
    using line m by (auto simp: score_def f(4,5))
  have same: "score (otherPlayer m) ?s' = score (otherPlayer m) ?s"
    using line m cp by (auto simp: score_def otherPlayer_def f(4,5))
  from fnd first w(1) shown up same show ?thesis by (simp add: f(1))
qed

theorem completed_line_wins_witness:
  "length (cells blank_page) = 9
   \<and> completes (run (clicks [0, 3, 1, 4]) (startup blank_page)) (Num 2) ''X'' (0, 1, 2)
   \<and> returns (handleCellClick 2 (Num 2) (run (clicks [0, 3, 1, 4]) (startup blank_page)))
   \<and> displays (state_of (handleCellClick 2 (Num 2) (run (clicks [0, 3, 1, 4]) (startup blank_page))))
        (Won ''X'' (line_cells (0, 1, 2)))
   \<and> score ''X'' (state_of (handleCellClick 2 (Num 2) (run (clicks [0, 3, 1, 4]) (startup blank_page))))
       = score ''X'' (run (clicks [0, 3, 1, 4]) (startup blank_page)) + 1
   \<and> score (otherPlayer ''X'')
         (state_of (handleCellClick 2 (Num 2) (run (clicks [0, 3, 1, 4]) (startup blank_page))))
       = score (otherPlayer ''X'') (run (clicks [0, 3, 1, 4]) (startup blank_page))"
proof -
  let ?s = "run (clicks [0, 3, 1, 4]) (startup blank_page)"
  have page: "length (cells blank_page) = 9" by (simp add: blank_page_def)
  have c: "completes ?s (Num 2) ''X'' (0, 1, 2)" by code_simp
  have first: "takeWhile (\<lambda>u. u \<noteq> (0, 1, 2)) spec_triples = []" by code_simp
  from completed_line_wins [OF page c, of 2] first page c show ?thesis by auto
qed

text \<open>
  Claim C1, as the specification states it, fails where one move completes two lines.
  After X on 1, 2, 3, 6 and O on 4, 5, 7, 8 no line is full; X on 0 then completes the
  column 0, 3, 6 (and the row 0, 1, 2), but the state does not show the game as won on that
  column: the loop stops at the row, which comes first in the table.
\<close>

theorem completed_line_not_shown:
  "completes (run (clicks [1, 4, 2, 5, 3, 7, 6, 8]) (startup blank_page)) (Num 0) ''X'' (0, 3, 6)
   \<and> \<not> displays
         (state_of (handleCellClick 0 (Num 0) (run (clicks [1, 4, 2, 5, 3, 7, 6, 8]) (startup blank_page))))
         (Won ''X'' (line_cells (0, 3, 6)))
   \<and> displays
         (state_of (handleCellClick 0 (Num 0) (run (clicks [1, 4, 2, 5, 3, 7, 6, 8]) (startup blank_page))))
         (Won ''X'' (line_cells (0, 1, 2)))"
  by code_simp

subsection \<open>Moves that complete no line\<close>

lemma accepted_is_click:
  assumes "accepted e s"
  obtains k idx where "e = CellClick k idx"
  using assms by (cases e) simp_all

lemma count_list_le_length: "count_list xs x \<le> length xs"
  by (induction xs) auto

lemma other_other: "m = ''X'' \<or> m = ''O'' \<Longrightarrow> otherPlayer (otherPlayer m) = m"
  by (auto simp: otherPlayer_def)

lemma other_ok: "otherPlayer m = ''X'' \<or> otherPlayer m = ''O''"
  by (simp add: otherPlayer_def)

lemma no_line_moves:
  assumes "all_accepted es s" and "no_line_during es s"
    and "length (gameState s) = 9"
    and "currentPlayer s = ''X'' \<or> currentPlayer s = ''O''"
  shows "playerXScore (run es s) = playerXScore s
    \<and> playerOScore (run es s) = playerOScore s
    \<and> count_list (gameState (run es s)) '''' + length es = count_list (gameState s) ''''
    \<and> (es \<noteq> [] \<longrightarrow>
          gameActive (run es s) = ('''' \<in> set (gameState (run es s)))
          \<and> (\<not> gameActive (run es s) \<longrightarrow> statusDisplay (run es s) = ''Game ended in a draw!''))"
  using assms
proof (induction es arbitrary: s)
  case Nil
  then show ?case by simp
next
  case (Cons e es)
  from Cons.prems(1) have acc: "accepted e s" by simp
  then obtain k idx where e: "e = CellClick k idx" by (rule accepted_is_click)
  let ?s' = "state_of (handleCellClick k idx s)"
  from acc have acc': "accepted (CellClick k idx) s" by (simp add: e)
  from acc' obtain i where i: "idx = Num (int i)" "i < length (gameState s)"
    "gameState s ! i = ''''" "gameActive s"
    by (rule accepted_index)
  note f = accepted_click_fields [OF acc' Cons.prems(4,3)]
  from Cons.prems(2) have noline: "\<not> has_line (gameState ?s')"
    and rest_noline: "no_line_during es ?s'"
    by (simp_all add: e)
  from noline have nl: "\<not> has_line (array_put (gameState s) idx (currentPlayer s))"
    by (simp add: f(1))
  from Cons.prems(1) have rest_acc: "all_accepted es ?s'" by (simp add: e)
  have len': "length (gameState ?s') = 9"
    using Cons.prems(3) by (simp add: f(1) length_array_put)
  have cp': "currentPlayer ?s' = ''X'' \<or> currentPlayer ?s' = ''O''"
    using Cons.prems(4) by (auto simp: f(3) otherPlayer_def)
  have sx: "playerXScore ?s' = playerXScore s" and so: "playerOScore ?s' = playerOScore s"
    using nl by (simp_all add: f(4,5))
  have cnt: "Suc (count_list (gameState ?s') '''') = count_list (gameState s) ''''"
  proof -
    have "gameState ?s' = (gameState s)[i := currentPlayer s]"
      using f(1) i(2) by (simp add: i(1))
    with count_list_update_old [OF i(2,3), of "currentPlayer s"] Cons.prems(4)
    show ?thesis by auto
  qed
  note IH = Cons.IH [OF rest_acc rest_noline len' cp']
  show ?case
  proof (cases "es = []")
    case True
    then show ?thesis
      using sx so cnt nl by (simp add: e f(2,7) f(1) [symmetric])
  next
    case False
    with IH sx so cnt show ?thesis by (simp add: e)
  qed
qed

text \<open>
  Claim C5. From a state with a board of nine cells and X or O to move, let nine clicks in
  a row all be accepted with no line ever full on the board after any of them. Then no
  cell is empty at the end, the state shows a draw, and both score counters are what they
  were before the nine moves.
\<close>

theorem nine_moves_without_line_draw:
  assumes "length (gameState s) = 9"
    and "currentPlayer s = ''X'' \<or> currentPlayer s = ''O''"
    and "length es = 9"
    and "all_accepted es s"
    and "no_line_during es s"
  shows "'''' \<notin> set (gameState (run es s))
    \<and> displays (run es s) Draw
    \<and> playerXScore (run es s) = playerXScore s
    \<and> playerOScore (run es s) = playerOScore s"
proof -
  note m = no_line_moves [OF assms(4,5,1,2)]
  from assms(3) have ne: "es \<noteq> []" by auto
  from m assms(3) have "count_list (gameState (run es s)) '''' + 9 = count_list (gameState s) ''''"
    by simp
  with count_list_le_length [of "gameState s" "''''"] assms(1)
  have "count_list (gameState (run es s)) '''' = 0" by simp
  then have full: "'''' \<notin> set (gameState (run es s))" by (simp add: count_list_0_iff)
  with m ne have "displays (run es s) Draw" by simp
  with full m show ?thesis by simp
qed

theorem nine_moves_without_line_draw_witness:
  "length (gameState (startup blank_page)) = 9
   \<and> currentPlayer (startup blank_page) = ''X''
   \<and> length (clicks [0, 1, 2, 4, 3, 5, 7, 6, 8]) = 9
   \<and> all_accepted (clicks [0, 1, 2, 4, 3, 5, 7, 6, 8]) (startup blank_page)
   \<and> no_line_during (clicks [0, 1, 2, 4, 3, 5, 7, 6, 8]) (startup blank_page)
   \<and> displays (run (clicks [0, 1, 2, 4, 3, 5, 7, 6, 8]) (startup blank_page)) Draw
   \<and> playerXScore (run (clicks [0, 1, 2, 4, 3, 5, 7, 6, 8]) (startup blank_page))
       = playerXScore (startup blank_page)
   \<and> playerOScore (run (clicks [0, 1, 2, 4, 3, 5, 7, 6, 8]) (startup blank_page))
       = playerOScore (startup blank_page)"
proof -
  let ?es = "clicks [0, 1, 2, 4, 3, 5, 7, 6, 8]"
  have len: "length (gameState (startup blank_page)) = 9" by code_simp
  have cp: "currentPlayer (startup blank_page) = ''X''" by code_simp
  have nine: "length ?es = 9" by (simp add: clicks_def)
  have acc: "all_accepted ?es (startup blank_page)" by code_simp
  have nol: "no_line_during ?es (startup blank_page)" by code_simp
  from nine_moves_without_line_draw [OF len _ nine acc nol] cp len nine acc nol
  show ?thesis by simp
qed

subsection \<open>The order of the marks\<close>

lemma run_append: "run (es @ fs) s = run fs (run es s)"
  by (induction es arbitrary: s) simp_all

lemma inactive_clicks:
  "\<not> gameActive s \<Longrightarrow> list_all is_click es \<Longrightarrow> run es s = s \<and> marks_placed es s = []"
proof (induction es)
  case Nil
  then show ?case by simp
next
  case (Cons e es)
  from Cons.prems(2) obtain k idx where e: "e = CellClick k idx" by (cases e) simp_all
  from Cons.prems(1) have "handleCellClick k idx s = Returned s"
    by (simp add: click_rejected)
  with Cons show ?case by (simp add: e)
qed

lemma marks_alternate:
  assumes "length (gameState s) = 9"
    and "currentPlayer s = ''X'' \<or> currentPlayer s = ''O''"
    and "list_all is_click es"
    and "n < length (marks_placed es s)"
  shows "marks_placed es s ! n
           = Some (if even n then currentPlayer s else otherPlayer (currentPlayer s))"
  using assms
proof (induction es arbitrary: s n)
  case Nil
  then show ?case by simp
next
  case (Cons e es)
  from Cons.prems(3) obtain k idx where e: "e = CellClick k idx" and clicks: "list_all is_click es"
    by (cases e) simp_all
  let ?s' = "state_of (handleCellClick k idx s)"
  show ?case
  proof (cases "accepted (CellClick k idx) s")
    case False
    then have same: "handleCellClick k idx s = Returned s" by (rule click_rejected)
    from False have "marks_placed (e # es) s = marks_placed es s"
      unfolding e marks_placed.simps Let_def same by simp
    with Cons.IH [OF Cons.prems(1,2) clicks, of n] Cons.prems(4) show ?thesis by simp
  next
    case True
    note f = accepted_click_fields [OF True Cons.prems(2,1)]
    from True have "array_get (gameState s) idx = Some ''''" by simp
    then have "array_get (gameState ?s') idx = Some (currentPlayer s)"
      by (simp add: f(1) array_get_put_same)
    with True have marks: "marks_placed (e # es) s = Some (currentPlayer s) # marks_placed es ?s'"
      unfolding e marks_placed.simps Let_def by simp
    show ?thesis
    proof (cases n)
      case 0
      then show ?thesis by (simp add: marks)
    next
      case (Suc n')
      with Cons.prems(4) have n': "n' < length (marks_placed es ?s')" by (simp add: marks)
      have active: "gameActive ?s'"
      proof (rule ccontr)
        assume "\<not> gameActive ?s'"
        from inactive_clicks [OF this clicks] n' show False by simp
      qed
      then have turn: "currentPlayer ?s' = otherPlayer (currentPlayer s)"
        by (simp add: f(2,3))
      have len': "length (gameState ?s') = 9"
        using Cons.prems(1) by (simp add: f(1) length_array_put)
      have cp': "currentPlayer ?s' = ''X'' \<or> currentPlayer ?s' = ''O''"
        by (simp add: turn other_ok)
      from Cons.IH [OF len' cp' clicks n'] other_other [OF Cons.prems(2)]
      show ?thesis by (simp add: marks Suc turn)
    qed
  qed
qed

text \<open>
  Claim C6. After a restart, whatever cells are clicked, the marks that the accepted clicks
  put on the board are X, O, X, O, ... in turn: the first accepted click places X and each
  later one the mark opposite to the one before. Once a click has left the game inactive
  (won or drawn), further clicks leave the turn as it is.
\<close>

theorem marks_alternate_from_restart:
  assumes "list_all is_click es"
  shows "(\<forall>n < length (marks_placed es (handleRestartGame s)).
            marks_placed es (handleRestartGame s) ! n = Some (if even n then ''X'' else ''O''))
    \<and> (\<forall>j \<le> length es. \<not> gameActive (run (take j es) (handleRestartGame s)) \<longrightarrow>
            currentPlayer (run es (handleRestartGame s))
              = currentPlayer (run (take j es) (handleRestartGame s)))"
proof -
  let ?s0 = "handleRestartGame s"
  have len: "length (gameState ?s0) = 9" and cp: "currentPlayer ?s0 = ''X''"
    by (simp_all add: handleRestartGame_def Let_def)
  have first: "\<forall>n < length (marks_placed es ?s0).
      marks_placed es ?s0 ! n = Some (if even n then ''X'' else ''O'')"
    using marks_alternate [OF len _ assms] cp by (simp add: otherPlayer_def)
  have second: "currentPlayer (run es ?s0) = currentPlayer (run (take j es) ?s0)"
    if "\<not> gameActive (run (take j es) ?s0)" for j
  proof -
    from assms have "list_all is_click (drop j es)"
      by (metis append_take_drop_id list_all_append)
    from inactive_clicks [OF that this]
    have "run (drop j es) (run (take j es) ?s0) = run (take j es) ?s0" by simp
    moreover have "run es ?s0 = run (drop j es) (run (take j es) ?s0)"
      using run_append [of "take j es" "drop j es" ?s0] by simp
    ultimately show ?thesis by simp
  qed
  from first second show ?thesis by blast
qed

theorem marks_alternate_from_restart_witness:
  "list_all is_click (clicks [0, 0, 3, 1, 4, 2, 5])
   \<and> marks_placed (clicks [0, 0, 3, 1, 4, 2, 5]) (handleRestartGame blank_page)
       = [Some ''X'', Some ''O'', Some ''X'', Some ''O'', Some ''X'']
   \<and> marks_placed (clicks [0, 0, 3, 1, 4, 2, 5]) (handleRestartGame blank_page) ! 3 = Some ''O''
   \<and> (6::nat) \<le> length (clicks [0, 0, 3, 1, 4, 2, 5])
   \<and> \<not> gameActive (run (take 6 (clicks [0, 0, 3, 1, 4, 2, 5])) (handleRestartGame blank_page))
   \<and> currentPlayer (run (clicks [0, 0, 3, 1, 4, 2, 5]) (handleRestartGame blank_page))
       = currentPlayer (run (take 6 (clicks [0, 0, 3, 1, 4, 2, 5])) (handleRestartGame blank_page))"
proof -
  let ?es = "clicks [0, 0, 3, 1, 4, 2, 5]"
  let ?s0 = "handleRestartGame blank_page"
  have cl: "list_all is_click ?es" by (simp add: clicks_def)
  have marks: "marks_placed ?es ?s0 = [Some ''X'', Some ''O'', Some ''X'', Some ''O'', Some ''X'']"
    by code_simp
  have six: "(6::nat) \<le> length ?es" by (simp add: clicks_def)
  have over: "\<not> gameActive (run (take 6 ?es) ?s0)" by code_simp
  from marks have three: "(3::nat) < length (marks_placed ?es ?s0)" by simp
  from marks_alternate_from_restart [OF cl, of blank_page]
  have "marks_placed ?es ?s0 ! 3 = Some ''O''"
    and "currentPlayer (run ?es ?s0) = currentPlayer (run (take 6 ?es) ?s0)"
    using three six over by auto
  with cl marks six over show ?thesis by simp
qed

end
